theory Spec2Isabelle
  imports Complex_Main "HOL-Library.Char_ord" "HOL-Library.List_Lexorder"
    "HOL-Library.Product_Lexorder" "HOL-Library.Log_Nat"
begin

section \<open>Exceptions and notebook state\<close>

text \<open>
  The notebook \<^verbatim>\<open>2_retail_recommend_train_tune.ipynb\<close> is a sequence of cells that
  drive an external service. An exception that a cell lets escape is a value of
  \<open>error\<close>. \<open>ClientError\<close> stands for whatever a service client call raises.
\<close>

datatype error = IndexError | KeyError | ValueError | ClientError

text \<open>
  What a cell can change: the state of the service (\<open>world\<close>, of a type the model does
  not fix), the lines printed so far, and the seconds spent in \<^verbatim>\<open>time.sleep\<close>.
\<close>

record 'w nb_state =
  world :: 'w
  out :: "string list"
  slept :: nat

text \<open>
  A statement takes the state and gives the state it leaves behind, together with the
  exception it raised, if any: what a statement did before it raised stays done.
\<close>

type_synonym 'w stmt = "'w nb_state \<Rightarrow> error option \<times> 'w nb_state"

definition print_line :: "string \<Rightarrow> 'w stmt" where
  "print_line msg s = (None, s\<lparr>out := out s @ [msg]\<rparr>)"

definition seq :: "'w stmt \<Rightarrow> 'w stmt \<Rightarrow> 'w stmt" where
  "seq p q s = (case p s of (Some e, s') \<Rightarrow> (Some e, s') | (None, s') \<Rightarrow> q s')"

text \<open>\<^verbatim>\<open>try: body  except: handler\<close> with a bare \<^verbatim>\<open>except\<close>, which catches every exception.\<close>

definition try_except :: "'w stmt \<Rightarrow> 'w stmt \<Rightarrow> 'w stmt" where
  "try_except body handler s =
     (case body s of (None, s') \<Rightarrow> (None, s') | (Some e, s') \<Rightarrow> handler s')"

text \<open>\<^verbatim>\<open>for x in xs: body\<close>: an exception of the body ends the loop and escapes.\<close>

fun for_each :: "('a \<Rightarrow> 'w stmt) \<Rightarrow> 'a list \<Rightarrow> 'w stmt" where
  "for_each body [] s = (None, s)"
| "for_each body (x # xs) s =
     (case body x s of (Some e, s') \<Rightarrow> (Some e, s') | (None, s') \<Rightarrow> for_each body xs s')"

section \<open>The artifact-association loop\<close>

text \<open>
  \<^verbatim>\<open>
  artifact_list = [[training_data_artifact, "ContributedTo"], [model_artifact, "Produced"]]

  for art, assoc in artifact_list:
      try:
          association.Association.create(
              source_arn=art.artifact_arn,
              destination_arn=trial_component_arn,
              association_type=assoc,
              sagemaker_session=sagemaker_session,
          )
          print(f"Association with {art.artifact_type}: SUCCEESFUL")
      except:
          print(f"Association already exists with {art.artifact_type}")
  \<close>
\<close>

record artifact =
  artifact_arn :: string
  artifact_type :: string

record association_request =
  source_arn :: string
  destination_arn :: string
  association_type :: string

text \<open>
  \<^verbatim>\<open>Association.create\<close> is a call to the lineage service: a parameter \<open>create\<close> that
  takes the request and the service's state and gives the exception raised (if any) and
  the service's new state.
\<close>

type_synonym 'w create_fn = "association_request \<Rightarrow> 'w \<Rightarrow> error option \<times> 'w"

definition the_request :: "string \<Rightarrow> artifact \<Rightarrow> string \<Rightarrow> association_request" where
  "the_request trial_component_arn art assoc =
     \<lparr>source_arn = artifact_arn art, destination_arn = trial_component_arn,
      association_type = assoc\<rparr>"

definition call_create :: "'w create_fn \<Rightarrow> association_request \<Rightarrow> 'w stmt" where
  "call_create create req s = (case create req (world s) of (r, w) \<Rightarrow> (r, s\<lparr>world := w\<rparr>))"

definition msg_success :: "artifact \<Rightarrow> string" where
  "msg_success art = ''Association with '' @ artifact_type art @ '': SUCCEESFUL''"

definition msg_exists :: "artifact \<Rightarrow> string" where
  "msg_exists art = ''Association already exists with '' @ artifact_type art"

definition associate :: "'w create_fn \<Rightarrow> string \<Rightarrow> artifact \<times> string \<Rightarrow> 'w stmt" where
  "associate create trial_component_arn = (\<lambda>(art, assoc).
     try_except
       (seq (call_create create (the_request trial_component_arn art assoc))
            (print_line (msg_success art)))
       (print_line (msg_exists art)))"

definition association_loop ::
  "'w create_fn \<Rightarrow> string \<Rightarrow> (artifact \<times> string) list \<Rightarrow> 'w stmt" where
  "association_loop create trial_component_arn artifact_list =
     for_each (associate create trial_component_arn) artifact_list"

section \<open>The model-package polling loop\<close>

text \<open>
  \<^verbatim>\<open>
  mp_info = sagemaker_boto_client.describe_model_package(
      ModelPackageName=mp_response["ModelPackageArn"])
  mp_status = mp_info["ModelPackageStatus"]

  while mp_status not in ["Completed", "Failed"]:
      time.sleep(5)
      mp_info = sagemaker_boto_client.describe_model_package(
          ModelPackageName=mp_response["ModelPackageArn"])
      mp_status = mp_info["ModelPackageStatus"]
      print(f"model package status: {mp_status}")
  print(f"model package status: {mp_status}")
  \<close>
  \<open>describe\<close> stands for the call together with the lookup of \<^verbatim>\<open>"ModelPackageStatus"\<close>
  in its answer: it gives the status, or the exception raised, and the service's new
  state. The service may never report a status that ends the loop, so the loop is a
  partial function: \<open>None\<close> is the loop that runs forever. A result \<open>Some (r, st, s)\<close> is
  the loop left with \<^verbatim>\<open>mp_status\<close> equal to \<open>st\<close> in state \<open>s\<close>, normally when \<open>r\<close> is \<open>None\<close>
  and by the exception \<open>e\<close> when \<open>r\<close> is \<open>Some e\<close>.
\<close>

type_synonym 'w describe_fn = "'w \<Rightarrow> (error + string) \<times> 'w"

definition sleep :: "nat \<Rightarrow> 'w nb_state \<Rightarrow> 'w nb_state" where
  "sleep n s = s\<lparr>slept := slept s + n\<rparr>"

definition msg_status :: "string \<Rightarrow> string" where
  "msg_status mp_status = ''model package status: '' @ mp_status"

definition terminal_statuses :: "string list" where
  "terminal_statuses = [''Completed'', ''Failed'']"

partial_function (option) poll_while ::
  "'w describe_fn \<Rightarrow> string \<Rightarrow> 'w nb_state \<Rightarrow> (error option \<times> string \<times> 'w nb_state) option"
where
  "poll_while describe mp_status s =
     (if mp_status \<notin> set terminal_statuses then
        (case describe (world (sleep 5 s)) of
           (Inl e, w) \<Rightarrow> Some (Some e, mp_status, (sleep 5 s)\<lparr>world := w\<rparr>)
         | (Inr st, w) \<Rightarrow>
             poll_while describe st
               ((sleep 5 s)\<lparr>world := w, out := out s @ [msg_status st]\<rparr>))
      else Some (None, mp_status, s))"

definition wait_model_package ::
  "'w describe_fn \<Rightarrow> 'w nb_state \<Rightarrow> (error option \<times> 'w nb_state) option" where
  "wait_model_package describe s =
     (case describe (world s) of
        (Inl e, w) \<Rightarrow> Some (Some e, s\<lparr>world := w\<rparr>)
      | (Inr st, w) \<Rightarrow>
          (case poll_while describe st (s\<lparr>world := w\<rparr>) of
             None \<Rightarrow> None
           | Some (Some e, st', s') \<Rightarrow> Some (Some e, s')
           | Some (None, st', s') \<Rightarrow> Some (print_line (msg_status st') s')))"

section \<open>Data frames and the pandas operations used\<close>

text \<open>
  One row of \<^verbatim>\<open>data/online_retail_preprocessed.csv\<close>, with the columns that
  \<^verbatim>\<open>get_recommendations\<close> reads. Prices and scores are floats in the source; the model
  takes them as real numbers, which are only compared and copied. The frame is
  preprocessed: no cell is missing.
\<close>

record row =
  StockCode :: string
  Description :: string
  UnitPrice :: real
  CustomerID :: int
  Country :: string

type_synonym dataframe = "row list"

text \<open>\<^verbatim>\<open>Series.unique()\<close>: the distinct values in order of first appearance.\<close>

definition unique :: "'a list \<Rightarrow> 'a list" where
  "unique xs = rev (remdups (rev xs))"

text \<open>
  \<^verbatim>\<open>sort_values(ascending=False)\<close> on counts: pandas reverses the values, sorts them
  ascending and reverses the result. The order among equal counts is left open by the
  default sort kind; the model takes the order a stable sort gives.
\<close>

definition sort_values_desc :: "('a \<times> nat) list \<Rightarrow> ('a \<times> nat) list" where
  "sort_values_desc xs = rev (sort_key snd (rev xs))"

text \<open>\<^verbatim>\<open>value_counts()\<close>: each distinct value with its number of occurrences, most frequent first.\<close>

definition value_counts :: "'a list \<Rightarrow> ('a \<times> nat) list" where
  "value_counts xs = sort_values_desc (map (\<lambda>v. (v, count_list xs v)) (unique xs))"

text \<open>\<^verbatim>\<open>.index[0]\<close>: the first label; IndexError when there is none.\<close>

definition index0 :: "'a list \<Rightarrow> error + 'a" where
  "index0 xs = (case xs of [] \<Rightarrow> Inl IndexError | x # _ \<Rightarrow> Inr x)"

definition most_common :: "'a list \<Rightarrow> error + 'a" where
  "most_common xs = index0 (map fst (value_counts xs))"

text \<open>
  A list comprehension \<^verbatim>\<open>[f(x) for x in xs]\<close> whose element expression may raise: the
  first exception ends it.
\<close>

fun comprehension :: "('a \<Rightarrow> error + 'b) \<Rightarrow> 'a list \<Rightarrow> error + 'b list" where
  "comprehension f [] = Inr []"
| "comprehension f (x # xs) =
     (case f x of Inl e \<Rightarrow> Inl e
      | Inr y \<Rightarrow> (case comprehension f xs of Inl e \<Rightarrow> Inl e | Inr ys \<Rightarrow> Inr (y # ys)))"

text \<open>\<^verbatim>\<open>xs[:stop]\<close> (also \<^verbatim>\<open>.iloc[:stop]\<close>), with Python's treatment of a negative or large stop.\<close>

definition slice_to :: "int \<Rightarrow> 'a list \<Rightarrow> 'a list" where
  "slice_to stop xs =
     (let len = int (length xs);
          s1 = (if stop < 0 then stop + len else stop);
          s2 = (if s1 < 0 then 0 else if s1 \<ge> len then len else s1)
      in take (nat s2) xs)"

text \<open>\<^verbatim>\<open>xs[:stop:-1]\<close>: from the last element down to, and without, index \<open>stop\<close>.\<close>

definition slice_to_rev :: "int \<Rightarrow> 'a list \<Rightarrow> 'a list" where
  "slice_to_rev stop xs =
     (let len = int (length xs);
          s1 = (if stop < 0 then stop + len else stop);
          s2 = (if s1 < 0 then - 1 else if s1 \<ge> len then len - 1 else s1)
      in map (\<lambda>i. xs ! nat i) (rev [s2 + 1 .. len - 1]))"

text \<open>
  \<^verbatim>\<open>np.array(preds).argsort()\<close>: the positions of \<open>preds\<close> in ascending order of their
  values (among equal values, in the order of a stable sort).
\<close>

definition argsort :: "real list \<Rightarrow> nat list" where
  "argsort preds = sort_key (\<lambda>i. preds ! i) [0 ..< length preds]"

text \<open>
  \<^verbatim>\<open>np.take_along_axis(items, index_array, axis=0)\<close> on one-dimensional arrays:
  \<^verbatim>\<open>items[index_array]\<close>, IndexError when an index is out of bounds.
\<close>

definition take_along_axis :: "'a list \<Rightarrow> nat list \<Rightarrow> error + 'a list" where
  "take_along_axis items index_array =
     (if list_all (\<lambda>i. i < length items) index_array
      then Inr (map (\<lambda>i. items ! i) index_array) else Inl IndexError)"

section \<open>The one-hot encoder\<close>

text \<open>
  \<^verbatim>\<open>OneHotEncoder(handle_unknown="ignore")\<close> of scikit-learn on the three columns
  \<^verbatim>\<open>["StockCode", "CustomerID", "Country"]\<close>. Fitting records the sorted distinct values
  of each column. A value is encoded as one column per recorded category, 1 in the
  column of the value and 0 elsewhere; with \<^verbatim>\<open>handle_unknown="ignore"\<close> a value that was
  not recorded gives 0 in every column of its feature. Fitting and transforming check
  their input and raise ValueError on a frame without rows.
\<close>

type_synonym onehot_row = "string \<times> int \<times> string"

record encoder =
  cats_StockCode :: "string list"
  cats_CustomerID :: "int list"
  cats_Country :: "string list"

definition onehot_cols :: "dataframe \<Rightarrow> onehot_row list" where
  "onehot_cols df = map (\<lambda>r. (StockCode r, CustomerID r, Country r)) df"

definition enc_fit :: "onehot_row list \<Rightarrow> error + encoder" where
  "enc_fit X =
     (if X = [] then Inl ValueError
      else Inr \<lparr>cats_StockCode = sort (remdups (map fst X)),
                cats_CustomerID = sort (remdups (map (fst \<circ> snd) X)),
                cats_Country = sort (remdups (map (snd \<circ> snd) X))\<rparr>)"

definition onehot :: "'a list \<Rightarrow> 'a \<Rightarrow> real list" where
  "onehot cats v = map (\<lambda>c. if c = v then 1 else 0) cats"

definition enc_transform_row :: "encoder \<Rightarrow> onehot_row \<Rightarrow> real list" where
  "enc_transform_row enc = (\<lambda>(code, customer, country).
     onehot (cats_StockCode enc) code @ onehot (cats_CustomerID enc) customer
       @ onehot (cats_Country enc) country)"

definition enc_transform :: "encoder \<Rightarrow> onehot_row list \<Rightarrow> error + real list list" where
  "enc_transform enc X = (if X = [] then Inl ValueError else Inr (map (enc_transform_row enc) X))"

text \<open>
  \<^verbatim>\<open>inverse_transform\<close>: each feature's columns are read back as the category at the
  first largest entry, or as \<^verbatim>\<open>None\<close> when the columns are all zero (their sum is 0).
  A matrix without rows, or of another width than the encoder's, is refused with
  ValueError.
\<close>

definition list_max :: "real list \<Rightarrow> real" where
  "list_max xs = fold max (tl xs) (hd xs)"

definition argmax :: "real list \<Rightarrow> nat" where
  "argmax xs = length (takeWhile (\<lambda>x. x \<noteq> list_max xs) xs)"

definition decode_block :: "'a list \<Rightarrow> real list \<Rightarrow> 'a option" where
  "decode_block cats block = (if sum_list block = 0 then None else Some (cats ! argmax block))"

definition enc_width :: "encoder \<Rightarrow> nat" where
  "enc_width enc =
     length (cats_StockCode enc) + length (cats_CustomerID enc) + length (cats_Country enc)"

definition enc_inverse_row :: "encoder \<Rightarrow> real list \<Rightarrow> string option \<times> int option \<times> string option" where
  "enc_inverse_row enc xs =
     (let n1 = length (cats_StockCode enc); n2 = length (cats_CustomerID enc)
      in (decode_block (cats_StockCode enc) (take n1 xs),
          decode_block (cats_CustomerID enc) (take n2 (drop n1 xs)),
          decode_block (cats_Country enc) (drop (n1 + n2) xs)))"

definition enc_inverse_transform ::
  "encoder \<Rightarrow> real list list \<Rightarrow> error + (string option \<times> int option \<times> string option) list" where
  "enc_inverse_transform enc M =
     (if M \<noteq> [] \<and> list_all (\<lambda>xs. length xs = enc_width enc) M
      then Inr (map (enc_inverse_row enc) M) else Inl ValueError)"

section \<open>\<^verbatim>\<open>get_recommendations\<close>\<close>

text \<open>
  \<^verbatim>\<open>
  def get_recommendations(df, customer_id, n_recommendations, n_ranks=100):
      popular_items = (
          df.groupby(["StockCode", "UnitPrice"])
          .nunique()["CustomerID"]
          .sort_values(ascending=False)
          .reset_index()
      )
      top_n_items = popular_items["StockCode"].iloc[:n_ranks].values
      top_n_prices = popular_items["UnitPrice"].iloc[:n_ranks].values
  \<close>
  The groups of \<^verbatim>\<open>groupby\<close> are the distinct pairs of stock code and unit price, in
  ascending order of the pair; \<^verbatim>\<open>nunique()["CustomerID"]\<close> counts the distinct customers
  of each group.
\<close>

definition group_keys :: "dataframe \<Rightarrow> (string \<times> real) list" where
  "group_keys df = sort (remdups (map (\<lambda>r. (StockCode r, UnitPrice r)) df))"

definition nunique_CustomerID :: "dataframe \<Rightarrow> string \<times> real \<Rightarrow> nat" where
  "nunique_CustomerID df k =
     length (remdups (map CustomerID (filter (\<lambda>r. (StockCode r, UnitPrice r) = k) df)))"

definition popular_items :: "dataframe \<Rightarrow> ((string \<times> real) \<times> nat) list" where
  "popular_items df = sort_values_desc (map (\<lambda>k. (k, nunique_CustomerID df k)) (group_keys df))"

definition top_n_items :: "dataframe \<Rightarrow> int \<Rightarrow> string list" where
  "top_n_items df n_ranks = slice_to n_ranks (map (fst \<circ> fst) (popular_items df))"

definition top_n_prices :: "dataframe \<Rightarrow> int \<Rightarrow> real list" where
  "top_n_prices df n_ranks = slice_to n_ranks (map (snd \<circ> fst) (popular_items df))"

text \<open>
  \<^verbatim>\<open>
      item_map = df.groupby("StockCode").agg(lambda x: x.value_counts().index[0])["Description"]

      df_subset = df.loc[df["CustomerID"] == customer_id]
      country = df_subset["Country"].value_counts().index[0]

      data = {
          "StockCode": top_n_items,
          "Description": [item_map[i] for i in top_n_items],
          "CustomerID": customer_id,
          "Country": country,
          "UnitPrice": top_n_prices,
      }
      df_inference = pd.DataFrame(data)
  \<close>
  \<open>item_map\<close> is a series indexed by stock code, kept as an association list; looking up
  a label that is not in the index raises KeyError.
\<close>

type_synonym series = "(string \<times> string) list"

definition item_map :: "dataframe \<Rightarrow> error + series" where
  "item_map df =
     comprehension
       (\<lambda>code. case most_common (map Description (filter (\<lambda>r. StockCode r = code) df)) of
                 Inl e \<Rightarrow> Inl e | Inr d \<Rightarrow> Inr (code, d))
       (sort (remdups (map StockCode df)))"

definition series_get :: "series \<Rightarrow> string \<Rightarrow> error + string" where
  "series_get m i = (case map_of m i of None \<Rightarrow> Inl KeyError | Some d \<Rightarrow> Inr d)"

definition customer_country :: "dataframe \<Rightarrow> int \<Rightarrow> error + string" where
  "customer_country df customer_id =
     most_common (map Country (filter (\<lambda>r. CustomerID r = customer_id) df))"

definition data_frame :: "string list \<Rightarrow> string list \<Rightarrow> int \<Rightarrow> string \<Rightarrow> real list \<Rightarrow> dataframe" where
  "data_frame codes descriptions customer_id country prices =
     map (\<lambda>(code, description, price).
            \<lparr>StockCode = code, Description = description, UnitPrice = price,
             CustomerID = customer_id, Country = country\<rparr>)
         (zip codes (zip descriptions prices))"

definition build_df_inference :: "dataframe \<Rightarrow> int \<Rightarrow> int \<Rightarrow> error + series \<times> dataframe" where
  "build_df_inference df customer_id n_ranks =
     (case item_map df of Inl e \<Rightarrow> Inl e
      | Inr im \<Rightarrow>
     (case customer_country df customer_id of Inl e \<Rightarrow> Inl e
      | Inr country \<Rightarrow>
     (case comprehension (series_get im) (top_n_items df n_ranks) of Inl e \<Rightarrow> Inl e
      | Inr descriptions \<Rightarrow>
          Inr (im, data_frame (top_n_items df n_ranks) descriptions customer_id country
                     (top_n_prices df n_ranks)))))"

text \<open>
  \<^verbatim>\<open>
      enc = OneHotEncoder(handle_unknown="ignore")
      onehot_cols = ["StockCode", "CustomerID", "Country"]
      enc.fit(df[onehot_cols])
      onehot_output = enc.transform(df_inference[onehot_cols])

      vectorizer = TfidfVectorizer(min_df=2)
      unique_descriptions = df["Description"].unique()
      vectorizer.fit(unique_descriptions)
      tfidf_output = vectorizer.transform(df_inference["Description"])

      row = range(len(df_inference))
      col = [0] * len(df_inference)
      unit_price = csr_matrix((df_inference["UnitPrice"].values, (row, col)), dtype="float32")

      X_inference = hstack([onehot_output, tfidf_output, unit_price], format="csr")
  \<close>
  The text vectoriser is a parameter: fitted on a list of documents it raises or gives
  the function that turns one document into its row of weights. The price column is
  built with \<^verbatim>\<open>dtype="float32"\<close>, so every price is sent as numpy casts it to single
  precision; this cast is the parameter \<open>float32\<close>, any function on the reals, so that
  what is proved holds whatever the rounding is. The encoder is the first to refuse an
  inference frame without rows (scipy could not build the price column of such a frame
  either).
\<close>

type_synonym vectorizer = "string list \<Rightarrow> error + (string \<Rightarrow> real list)"

type_synonym cast = "real \<Rightarrow> real"

definition hstack :: "real list list \<Rightarrow> real list list \<Rightarrow> real list list \<Rightarrow> real list list" where
  "hstack A B C = map (\<lambda>(a, b, c). a @ b @ c) (zip A (zip B C))"

definition build_X_inference ::
  "vectorizer \<Rightarrow> cast \<Rightarrow> dataframe \<Rightarrow> dataframe
     \<Rightarrow> error + encoder \<times> real list list \<times> real list list" where
  "build_X_inference tfidf float32 df df_inference =
     (case enc_fit (onehot_cols df) of Inl e \<Rightarrow> Inl e
      | Inr enc \<Rightarrow>
     (case enc_transform enc (onehot_cols df_inference) of Inl e \<Rightarrow> Inl e
      | Inr onehot_output \<Rightarrow>
     (case tfidf (unique (map Description df)) of Inl e \<Rightarrow> Inl e
      | Inr vectorizer_transform \<Rightarrow>
          Inr (enc, onehot_output,
               hstack onehot_output
                 (map vectorizer_transform (map Description df_inference))
                 (map (\<lambda>r. [float32 (UnitPrice r)]) df_inference)))))"

text \<open>
  \<^verbatim>\<open>
      result = fm_predictor.predict(X_inference.toarray())
      preds = [i["score"] for i in result["predictions"]]
      index_array = np.array(preds).argsort()
      items = enc.inverse_transform(onehot_output)[:, 0]
      top_recs = np.take_along_axis(items, index_array, axis=0)[: -n_recommendations - 1 : -1]
      recommendations = [[i, item_map[i]] for i in top_recs]
      return recommendations
  \<close>
  The endpoint is a parameter \<open>fm_predict\<close>: for the matrix sent it gives the list of
  scores read from the answer, or the exception raised by the call or by reading the
  answer.
\<close>

type_synonym predictor = "real list list \<Rightarrow> error + real list"

definition items_of :: "encoder \<Rightarrow> real list list \<Rightarrow> error + string option list" where
  "items_of enc onehot_output =
     (case enc_inverse_transform enc onehot_output of Inl e \<Rightarrow> Inl e
      | Inr X_tr \<Rightarrow> Inr (map fst X_tr))"

definition recommendation :: "series \<Rightarrow> string option \<Rightarrow> error + string \<times> string" where
  "recommendation im i =
     (case i of None \<Rightarrow> Inl KeyError
      | Some code \<Rightarrow> (case series_get im code of Inl e \<Rightarrow> Inl e | Inr d \<Rightarrow> Inr (code, d)))"

definition rank_recommendations ::
  "series \<Rightarrow> encoder \<Rightarrow> real list list \<Rightarrow> real list \<Rightarrow> int \<Rightarrow> error + (string \<times> string) list" where
  "rank_recommendations im enc onehot_output preds n_recommendations =
     (case items_of enc onehot_output of Inl e \<Rightarrow> Inl e
      | Inr items \<Rightarrow>
     (case take_along_axis items (argsort preds) of Inl e \<Rightarrow> Inl e
      | Inr ranked \<Rightarrow>
          comprehension (recommendation im) (slice_to_rev (- n_recommendations - 1) ranked)))"

definition get_recommendations ::
  "predictor \<Rightarrow> vectorizer \<Rightarrow> cast \<Rightarrow> dataframe \<Rightarrow> int \<Rightarrow> int \<Rightarrow> int
     \<Rightarrow> error + (string \<times> string) list" where
  "get_recommendations fm_predict tfidf float32 df customer_id n_recommendations n_ranks =
     (case build_df_inference df customer_id n_ranks of Inl e \<Rightarrow> Inl e
      | Inr (im, df_inference) \<Rightarrow>
     (case build_X_inference tfidf float32 df df_inference of Inl e \<Rightarrow> Inl e
      | Inr (enc, onehot_output, X_inference) \<Rightarrow>
     (case fm_predict X_inference of Inl e \<Rightarrow> Inl e
      | Inr preds \<Rightarrow> rank_recommendations im enc onehot_output preds n_recommendations)))"

section \<open>Properties stated in the specification's words\<close>


text \<open>The number of distinct customers who bought an item, at whatever price.\<close>

definition item_customers :: "dataframe \<Rightarrow> string \<Rightarrow> nat" where
  "item_customers df code =
     length (remdups (map CustomerID (filter (\<lambda>r. StockCode r = code) df)))"

section \<open>Example data\<close>

text \<open>
  A small frame, a scoring endpoint that prefers cheap items (the price is the last
  feature of a row), a stand-in for the text vectoriser, a cast to single precision
  and a service whose answers are scripted.
\<close>

definition df0 :: dataframe where
  "df0 =
    [\<lparr>StockCode = ''22423'', Description = ''REGENCY CAKESTAND'', UnitPrice = 12.75,
      CustomerID = 1, Country = ''UK''\<rparr>,
     \<lparr>StockCode = ''22423'', Description = ''REGENCY CAKESTAND'', UnitPrice = 12.75,
      CustomerID = 2, Country = ''UK''\<rparr>,
     \<lparr>StockCode = ''22423'', Description = ''CAKESTAND'', UnitPrice = 12.75,
      CustomerID = 2, Country = ''France''\<rparr>,
     \<lparr>StockCode = ''85123A'', Description = ''HEART HOLDER'', UnitPrice = 2.55,
      CustomerID = 1, Country = ''UK''\<rparr>,
     \<lparr>StockCode = ''85123A'', Description = ''HEART HOLDER'', UnitPrice = 2.95,
      CustomerID = 2, Country = ''France''\<rparr>,
     \<lparr>StockCode = ''85123A'', Description = ''WHITE HEART'', UnitPrice = 3.25,
      CustomerID = 3, Country = ''France''\<rparr>,
     \<lparr>StockCode = ''22776'', Description = ''SWEETHEART'', UnitPrice = 9.95,
      CustomerID = 1, Country = ''France''\<rparr>]"

definition cheap_first :: predictor where
  "cheap_first X = Inr (map (\<lambda>r. - last r) X)"

definition toy_tfidf :: vectorizer where
  "toy_tfidf docs = Inr (\<lambda>d. map (\<lambda>u. if u = d then 1 else 0) docs)"

text \<open>
  \<open>single\<close> rounds to the nearest number with 24 significant bits, ties to the even
  one, with the exponent of the smallest normal number for magnitudes below it: the
  cast to \<^verbatim>\<open>float32\<close> for magnitudes in the range of single precision. So 9.95 becomes
  9.94999980926513671875. \<open>binade a\<close> is the exponent \<open>e\<close> with \<open>2 ^ e \<le> a < 2 ^ (e + 1)\<close>
  of a positive \<open>a\<close>.
\<close>

definition pow2 :: "int \<Rightarrow> real" where
  "pow2 e = (if 0 \<le> e then 2 ^ nat e else 1 / 2 ^ nat (- e))"

definition binade :: "real \<Rightarrow> int" where
  "binade a =
     (if 1 \<le> a then bitlen \<lfloor>a\<rfloor> - 1
      else (let j = bitlen \<lfloor>1 / a\<rfloor> in if 1 / a = pow2 (j - 1) then 1 - j else - j))"

definition round_half_even :: "real \<Rightarrow> int" where
  "round_half_even m =
     (let f = \<lfloor>m\<rfloor>; r = m - of_int f
      in if r < 1 / 2 then f else if 1 / 2 < r then f + 1 else if even f then f else f + 1)"

definition single :: cast where
  "single x =
     (let e = max (binade \<bar>x\<bar>) (- 126); u = pow2 (e - 23)
      in of_int (round_half_even (x / u)) * u)"

definition scripted :: "string list describe_fn" where
  "scripted w = (case w of [] \<Rightarrow> (Inl ClientError, []) | r # rs \<Rightarrow> (Inr r, rs))"

definition im0 :: series where
  "im0 = [(''22423'', ''REGENCY CAKESTAND''), (''22776'', ''SWEETHEART''),
          (''85123A'', ''HEART HOLDER'')]"

definition dfi0 :: dataframe where
  "dfi0 =
    [\<lparr>StockCode = ''22423'', Description = ''REGENCY CAKESTAND'', UnitPrice = 12.75,
      CustomerID = 1, Country = ''UK''\<rparr>,
     \<lparr>StockCode = ''22776'', Description = ''SWEETHEART'', UnitPrice = 9.95,
      CustomerID = 1, Country = ''UK''\<rparr>,
     \<lparr>StockCode = ''85123A'', Description = ''HEART HOLDER'', UnitPrice = 2.55,
      CustomerID = 1, Country = ''UK''\<rparr>]"

definition enc0 :: encoder where
  "enc0 = \<lparr>cats_StockCode = [''22423'', ''22776'', ''85123A''],
           cats_CustomerID = [1, 2, 3], cats_Country = [''France'', ''UK'']\<rparr>"

definition onehot_output0 :: "real list list" where
  "onehot_output0 =
     [[1, 0, 0, 1, 0, 0, 0, 1], [0, 1, 0, 1, 0, 0, 0, 1], [0, 0, 1, 1, 0, 0, 0, 1]]"

definition X_inference0 :: "real list list" where
  "X_inference0 =
     [[1, 0, 0, 1, 0, 0, 0, 1, 1, 0, 0, 0, 0, 12.75],
      [0, 1, 0, 1, 0, 0, 0, 1, 0, 0, 0, 0, 1, 10433331 / 1048576],
      [0, 0, 1, 1, 0, 0, 0, 1, 0, 0, 1, 0, 0, 10695475 / 4194304]]"

section \<open>The association loop catches every failure\<close>

lemma associate_no_exception: "fst (associate create tc x s) = None"
  by (cases x) (simp add: associate_def try_except_def seq_def print_line_def call_create_def
      split: prod.splits option.splits)

lemma for_each_no_exception:
  "(\<And>x s. fst (body x s) = None) \<Longrightarrow> fst (for_each body xs s) = None"
proof (induction xs arbitrary: s)
  case Nil
  show ?case by simp
next
  case (Cons x xs)
  obtain s' where "body x s = (None, s')"
    using Cons.prems [of x s] by (cases "body x s") simp
  then show ?case using Cons by simp
qed

lemma associate_step:
  "associate create tc (art, assoc) s =
     (None, s\<lparr>world := snd (create (the_request tc art assoc) (world s)),
              out := out s @ [if fst (create (the_request tc art assoc) (world s)) = None
                             then msg_success art else msg_exists art]\<rparr>)"
  by (simp add: associate_def try_except_def seq_def print_line_def call_create_def
      split: prod.splits option.splits)

text \<open>
  C8. Whatever \<^verbatim>\<open>Association.create\<close> does, the association loop ends without an
  exception; and for each artifact the loop sends the request, prints the success line
  when the call returned and the "already exists" line when it raised, and goes on with
  the remaining artifacts.
\<close>

theorem association_loop_catches_all:
  "fst (association_loop create tc artifact_list s) = None \<and>
   association_loop create tc ((art, assoc) # rest) s =
     association_loop create tc rest
       (s\<lparr>world := snd (create (the_request tc art assoc) (world s)),
          out := out s @ [if fst (create (the_request tc art assoc) (world s)) = None
                         then msg_success art else msg_exists art]\<rparr>)"
  unfolding association_loop_def
  by (simp add: for_each_no_exception associate_no_exception associate_step)

section \<open>The polling loop ends on a terminal status only\<close>

lemma poll_while_exit:
  assumes "poll_while describe st s = Some r"
  shows "fst r = None \<longrightarrow> fst (snd r) \<in> set terminal_statuses"
  using assms
proof (induction rule: poll_while.raw_induct[rotated 1, consumes 1])
  case (1 poll describe st s r)
  then show ?case
    by (auto split: if_splits prod.splits sum.splits)
qed

text \<open>
  C7. When the polling loop is left normally, \<^verbatim>\<open>mp_status\<close> is "Completed" or "Failed";
  and on any other status the loop sleeps five seconds, asks the service again and
  continues with the status it got (an exception of that call escapes).
\<close>

theorem poll_while_exits_on_terminal_only:
  "(poll_while describe st s = Some (None, st', s') \<longrightarrow> st' = ''Completed'' \<or> st' = ''Failed'') \<and>
   (st \<noteq> ''Completed'' \<and> st \<noteq> ''Failed'' \<longrightarrow>
      poll_while describe st s =
        (case describe (world (sleep 5 s)) of
           (Inl e, w) \<Rightarrow> Some (Some e, st, (sleep 5 s)\<lparr>world := w\<rparr>)
         | (Inr st2, w) \<Rightarrow>
             poll_while describe st2
               ((sleep 5 s)\<lparr>world := w, out := out s @ [msg_status st2]\<rparr>)))"
proof (intro conjI impI)
  assume "poll_while describe st s = Some (None, st', s')"
  from poll_while_exit [OF this] show "st' = ''Completed'' \<or> st' = ''Failed''"
    by (simp add: terminal_statuses_def)
next
  assume "st \<noteq> ''Completed'' \<and> st \<noteq> ''Failed''"
  then show "poll_while describe st s =
        (case describe (world (sleep 5 s)) of
           (Inl e, w) \<Rightarrow> Some (Some e, st, (sleep 5 s)\<lparr>world := w\<rparr>)
         | (Inr st2, w) \<Rightarrow>
             poll_while describe st2
               ((sleep 5 s)\<lparr>world := w, out := out s @ [msg_status st2]\<rparr>))"
    by (subst poll_while.simps) (simp add: terminal_statuses_def)
qed

theorem poll_while_exits_on_terminal_only_witness:
  "poll_while scripted ''InProgress'' \<lparr>world = [''Pending'', ''Completed''], out = [], slept = 0\<rparr>
     = Some (None, ''Completed'',
         \<lparr>world = [], out = [''model package status: Pending'', ''model package status: Completed''],
          slept = 10\<rparr>) \<and>
   ''InProgress'' \<noteq> ''Completed'' \<and> ''InProgress'' \<noteq> ''Failed'' \<and>
   poll_while scripted ''InProgress'' \<lparr>world = [''Pending'', ''Completed''], out = [], slept = 0\<rparr>
     = poll_while scripted ''Pending''
         \<lparr>world = [''Completed''], out = [''model package status: Pending''], slept = 5\<rparr>"
  using poll_while_exits_on_terminal_only [of scripted "''InProgress''"
      "\<lparr>world = [''Pending'', ''Completed''], out = [], slept = 0\<rparr>" "''Completed''"
      "\<lparr>world = [], out = [''model package status: Pending'', ''model package status: Completed''],
          slept = 10\<rparr>"]
  by (simp add: poll_while.simps scripted_def sleep_def terminal_statuses_def msg_status_def)

section \<open>Slices, sorting and list comprehensions\<close>

subsection \<open>Slices\<close>

lemma slice_to_take:
  "slice_to stop xs = take (nat (if stop < 0 then stop + int (length xs) else stop)) xs"
  by (auto simp: slice_to_def Let_def)

lemma slice_to_map: "slice_to stop (map f xs) = map f (slice_to stop xs)"
  by (simp add: slice_to_take take_map)

lemma length_slice_to: 
  "length (slice_to stop xs) = min (nat (if stop < 0 then stop + int (length xs) else stop)) (length xs)"
  by (simp add: slice_to_take)

lemma map_nth_upto:
  "a \<le> length xs \<Longrightarrow> map (\<lambda>i. xs ! nat i) [int a .. int (length xs) - 1] = drop a xs"
proof (induction "length xs - a" arbitrary: a)
  case 0
  then show ?case by simp
next
  case (Suc d)
  then have lt: "a < length xs" by simp
  then have "[int a .. int (length xs) - 1] = int a # [int (Suc a) .. int (length xs) - 1]"
    by (simp add: upto_rec1 add.commute)
  moreover have "map (\<lambda>i. xs ! nat i) [int (Suc a) .. int (length xs) - 1] = drop (Suc a) xs"
    using Suc lt by (intro Suc.hyps(1)) simp_all
  ultimately show ?case using lt by (simp add: Cons_nth_drop_Suc)
qed

lemma slice_to_rev_take:
  "slice_to_rev (- n - 1) xs =
     take (nat (if 0 \<le> n then n else int (length xs) + n)) (rev xs)"
proof -
  define len where "len = int (length xs)"
  define s1 where "s1 = (if - n - 1 < 0 then - n - 1 + len else - n - 1)"
  define s2 where "s2 = (if s1 < 0 then - 1 else if s1 \<ge> len then len - 1 else s1)"
  have s2: "- 1 \<le> s2" "s2 \<le> len - 1" "s2 + 1 = int (nat (s2 + 1))" "nat (s2 + 1) \<le> length xs"
    by (auto simp: s2_def s1_def len_def)
  have "slice_to_rev (- n - 1) xs = map (\<lambda>i. xs ! nat i) (rev [s2 + 1 .. len - 1])"
    by (simp add: slice_to_rev_def Let_def s2_def s1_def len_def)
  also have "\<dots> = rev (map (\<lambda>i. xs ! nat i) [int (nat (s2 + 1)) .. int (length xs) - 1])"
    using s2(3) by (simp add: rev_map len_def)
  also have "\<dots> = rev (drop (nat (s2 + 1)) xs)"
    using s2(4) by (simp only: map_nth_upto)
  also have "\<dots> = take (length xs - nat (s2 + 1)) (rev xs)"
    by (simp add: rev_drop)
  also have "\<dots> = take (nat (if 0 \<le> n then n else int (length xs) + n)) (rev xs)"
  proof (cases "0 \<le> n")
    case True
    then show ?thesis
      by (cases "n \<le> len") (auto simp: s2_def s1_def len_def nat_diff_distrib intro: arg_cong2[where f=take])
  next
    case False
    then show ?thesis
      by (cases "- n - 1 \<ge> len") (auto simp: s2_def s1_def len_def nat_diff_distrib intro: arg_cong2[where f=take])
  qed
  finally show ?thesis .
qed

subsection \<open>Sorting\<close>

lemma set_sort_values_desc [simp]: "set (sort_values_desc xs) = set xs"
  by (simp add: sort_values_desc_def)

lemma length_sort_values_desc [simp]: "length (sort_values_desc xs) = length xs"
  by (simp add: sort_values_desc_def)

lemma distinct_sort_values_desc [simp]: "distinct (sort_values_desc xs) = distinct xs"
  by (simp add: sort_values_desc_def)

lemma sorted_sort_values_desc: "sorted_wrt (\<lambda>a b. snd b \<le> snd a) (sort_values_desc xs)"
proof -
  have "sorted (map snd (sort_key snd (rev xs)))" by simp
  then have "sorted_wrt (\<lambda>a b. snd a \<le> snd b) (sort_key snd (rev xs))"
    by (simp add: sorted_wrt_map)
  then show ?thesis by (simp add: sort_values_desc_def sorted_wrt_rev)
qed

lemma set_argsort [simp]: "set (argsort preds) = {..< length preds}"
  by (auto simp: argsort_def)

lemma length_argsort [simp]: "length (argsort preds) = length preds"
  by (simp add: argsort_def)

lemma distinct_argsort [simp]: "distinct (argsort preds)"
  by (simp add: argsort_def)

lemma sorted_argsort: "sorted (map (\<lambda>i. preds ! i) (argsort preds))"
  by (simp add: argsort_def)

subsection \<open>List comprehensions\<close>

lemma comprehension_Inr_D:
  "comprehension f xs = Inr ys \<Longrightarrow> list_all2 (\<lambda>x y. f x = Inr y) xs ys"
  by (induction xs arbitrary: ys) (auto split: sum.splits)

lemma comprehension_Inr_I:
  "list_all2 (\<lambda>x y. f x = Inr y) xs ys \<Longrightarrow> comprehension f xs = Inr ys"
  by (induction rule: list_all2_induct) simp_all

lemma comprehension_Inr_iff:
  "comprehension f xs = Inr ys \<longleftrightarrow> list_all2 (\<lambda>x y. f x = Inr y) xs ys"
  using comprehension_Inr_D comprehension_Inr_I by blast

lemma comprehension_map:
  "(\<And>x. x \<in> set xs \<Longrightarrow> f x = Inr (g x)) \<Longrightarrow> comprehension f xs = Inr (map g xs)"
  by (induction xs) simp_all


subsection \<open>The most common value and the item map\<close>

lemma set_unique [simp]: "set (unique xs) = set xs"
  by (simp add: unique_def)

lemma distinct_unique [simp]: "distinct (unique xs)"
  by (simp add: unique_def)

lemma set_value_counts: "set (value_counts xs) = (\<lambda>v. (v, count_list xs v)) ` set xs"
  by (simp add: value_counts_def)

lemma value_counts_Nil_iff: "value_counts xs = [] \<longleftrightarrow> xs = []"
proof -
  have "value_counts xs = [] \<longleftrightarrow> set (value_counts xs) = {}" by simp
  then show ?thesis by (simp add: set_value_counts)
qed

lemma most_common_Nil: "most_common [] = Inl IndexError"
  by (simp add: most_common_def index0_def value_counts_def unique_def sort_values_desc_def)

lemma most_common_Inl: "most_common xs = Inl e \<Longrightarrow> xs = [] \<and> e = IndexError"
  by (cases "value_counts xs")
     (auto simp: most_common_def index0_def value_counts_Nil_iff)


lemma most_common_nonempty: "xs \<noteq> [] \<Longrightarrow> \<exists>v. most_common xs = Inr v"
  by (cases "most_common xs") (auto dest: most_common_Inl)

lemma item_map_Inr:
  "item_map df =
     Inr (map (\<lambda>code. (code, projr (most_common (map Description (filter (\<lambda>r. StockCode r = code) df)))))
            (sort (remdups (map StockCode df))))"
  unfolding item_map_def
proof (rule comprehension_map)
  fix code assume "code \<in> set (sort (remdups (map StockCode df)))"
  then have "map Description (filter (\<lambda>r. StockCode r = code) df) \<noteq> []"
    by (auto simp: filter_empty_conv)
  from most_common_nonempty [OF this]
  show "(case most_common (map Description (filter (\<lambda>r. StockCode r = code) df)) of
          Inl e \<Rightarrow> Inl e | Inr d \<Rightarrow> Inr (code, d)) =
        Inr (code, projr (most_common (map Description (filter (\<lambda>r. StockCode r = code) df))))"
    by auto
qed



subsection \<open>The inference frame\<close>

lemma data_frame_columns:
  assumes "length ds = length cs" and "length ps = length cs"
  shows "map StockCode (data_frame cs ds cid co ps) = cs"
    and "map Description (data_frame cs ds cid co ps) = ds"
    and "map UnitPrice (data_frame cs ds cid co ps) = ps"
    and "map CustomerID (data_frame cs ds cid co ps) = replicate (length cs) cid"
    and "map Country (data_frame cs ds cid co ps) = replicate (length cs) co"
proof -
  have l: "length cs = length (zip ds ps)" using assms by simp
  have a: "map (\<lambda>x. fst x) (zip cs (zip ds ps)) = cs"
    using map_fst_zip [OF l] by (simp add: comp_def)
  have "map (\<lambda>x. fst (snd x)) (zip cs (zip ds ps)) = map fst (map snd (zip cs (zip ds ps)))"
    by simp
  also have "\<dots> = ds" using assms by (simp only: map_snd_zip [OF l]) simp
  finally have b: "map (\<lambda>x. fst (snd x)) (zip cs (zip ds ps)) = ds" .
  have "map (\<lambda>x. snd (snd x)) (zip cs (zip ds ps)) = map snd (map snd (zip cs (zip ds ps)))"
    by simp
  also have "\<dots> = ps" using assms by (simp only: map_snd_zip [OF l]) simp
  finally have c: "map (\<lambda>x. snd (snd x)) (zip cs (zip ds ps)) = ps" .
  show "map StockCode (data_frame cs ds cid co ps) = cs"
    using a by (simp add: data_frame_def case_prod_beta comp_def)
  show "map Description (data_frame cs ds cid co ps) = ds"
    using b by (simp add: data_frame_def case_prod_beta comp_def)
  show "map UnitPrice (data_frame cs ds cid co ps) = ps"
    using c by (simp add: data_frame_def case_prod_beta comp_def)
  show "map CustomerID (data_frame cs ds cid co ps) = replicate (length cs) cid"
    using assms by (simp add: data_frame_def case_prod_beta comp_def map_replicate_const)
  show "map Country (data_frame cs ds cid co ps) = replicate (length cs) co"
    using assms by (simp add: data_frame_def case_prod_beta comp_def map_replicate_const)
qed

lemma length_top_n_prices: "length (top_n_prices df k) = length (top_n_items df k)"
  by (simp add: top_n_prices_def top_n_items_def length_slice_to)

lemma zip_top_n:
  "zip (top_n_items df k) (top_n_prices df k) = slice_to k (map fst (popular_items df))"
proof -
  let ?P = "slice_to k (popular_items df)"
  have "zip (top_n_items df k) (top_n_prices df k) = zip (map (fst \<circ> fst) ?P) (map (snd \<circ> fst) ?P)"
    by (simp only: top_n_items_def top_n_prices_def slice_to_map)
  also have "\<dots> = map fst ?P"
    by (simp add: zip_map_map zip_same_conv_map)
  finally show ?thesis by (simp only: slice_to_map)
qed

lemma set_slice_to_subset: "set (slice_to stop xs) \<subseteq> set xs"
  by (subst slice_to_take) (rule set_take_subset)

lemma set_group_keys: "set (group_keys df) = (\<lambda>r. (StockCode r, UnitPrice r)) ` set df"
  by (simp add: group_keys_def)

lemma top_n_items_subset: "set (top_n_items df k) \<subseteq> StockCode ` set df"
proof -
  have "set (top_n_items df k) \<subseteq> set (map (fst \<circ> fst) (popular_items df))"
    unfolding top_n_items_def by (rule set_slice_to_subset)
  also have "\<dots> \<subseteq> StockCode ` set df"
    by (auto simp: popular_items_def set_group_keys)
  finally show ?thesis .
qed

text \<open>What a successful \<open>build_df_inference\<close> has computed.\<close>

lemma build_df_inference_Inr:
  assumes "build_df_inference df cid k = Inr (im, dfi)"
  obtains country where
    "item_map df = Inr im"
    "customer_country df cid = Inr country"
    "map StockCode dfi = top_n_items df k"
    "map UnitPrice dfi = top_n_prices df k"
    "map CustomerID dfi = replicate (length (top_n_items df k)) cid"
    "map Country dfi = replicate (length (top_n_items df k)) country"
    "list_all2 (\<lambda>c d. series_get im c = Inr d) (top_n_items df k) (map Description dfi)"
proof -
  from assms obtain country ds where
    im: "item_map df = Inr im" and co: "customer_country df cid = Inr country"
    and ds: "comprehension (series_get im) (top_n_items df k) = Inr ds"
    and dfi: "dfi = data_frame (top_n_items df k) ds cid country (top_n_prices df k)"
    by (auto simp: build_df_inference_def split: sum.splits)
  from ds have l2: "list_all2 (\<lambda>c d. series_get im c = Inr d) (top_n_items df k) ds"
    by (rule comprehension_Inr_D)
  then have len: "length ds = length (top_n_items df k)"
    by (simp add: list_all2_lengthD)
  note cols = data_frame_columns [OF len length_top_n_prices]
  show thesis
    using im co l2 by (intro that [of country]) (simp_all add: dfi cols)
qed


subsection \<open>The feature matrix and the encoder\<close>

lemma hstack_maps: "hstack (map f xs) (map g xs) (map h xs) = map (\<lambda>x. f x @ g x @ h x) xs"
  by (induction xs) (simp_all add: hstack_def)

lemma build_X_inference_Inr:
  assumes "build_X_inference V F df dfi = Inr (enc, oh, X)"
  obtains vt where
    "enc_fit (onehot_cols df) = Inr enc"
    "enc_transform enc (onehot_cols dfi) = Inr oh"
    "df \<noteq> []" "dfi \<noteq> []"
    "oh = map (\<lambda>r. enc_transform_row enc (StockCode r, CustomerID r, Country r)) dfi"
    "V (unique (map Description df)) = Inr vt"
    "X = map (\<lambda>r. enc_transform_row enc (StockCode r, CustomerID r, Country r)
                     @ vt (Description r) @ [F (UnitPrice r)]) dfi"
proof -
  from assms obtain vt where
    fit: "enc_fit (onehot_cols df) = Inr enc"
    and tr: "enc_transform enc (onehot_cols dfi) = Inr oh"
    and vt: "V (unique (map Description df)) = Inr vt"
    and X: "X = hstack oh (map vt (map Description dfi)) (map (\<lambda>r. [F (UnitPrice r)]) dfi)"
    by (auto simp: build_X_inference_def split: sum.splits)
  from fit have df: "df \<noteq> []"
    by (auto simp: enc_fit_def onehot_cols_def split: if_splits)
  from tr have dfi: "dfi \<noteq> []"
    and oh: "oh = map (\<lambda>r. enc_transform_row enc (StockCode r, CustomerID r, Country r)) dfi"
    by (auto simp: enc_transform_def onehot_cols_def split: if_splits)
  have "X = map (\<lambda>r. enc_transform_row enc (StockCode r, CustomerID r, Country r)
                     @ vt (Description r) @ [F (UnitPrice r)]) dfi"
    unfolding X oh map_map comp_def
    using hstack_maps [of "\<lambda>r. enc_transform_row enc (StockCode r, CustomerID r, Country r)"
        dfi "\<lambda>r. vt (Description r)" "\<lambda>r. [F (UnitPrice r)]"]
    by simp
  with fit tr df dfi oh vt show thesis by (intro that [of vt])
qed

lemma enc_fit_cats:
  assumes "enc_fit (onehot_cols df) = Inr enc"
  shows "set (cats_StockCode enc) = StockCode ` set df"
    and "set (cats_CustomerID enc) = CustomerID ` set df"
    and "set (cats_Country enc) = Country ` set df"
  using assms by (auto simp: enc_fit_def onehot_cols_def split: if_splits)

lemma length_onehot [simp]: "length (onehot cats v) = length cats"
  by (simp add: onehot_def)

lemma onehot_unknown: "v \<notin> set cats \<Longrightarrow> onehot cats v = replicate (length cats) 0"
  by (induction cats) (auto simp: onehot_def)

lemma sum_list_onehot: "sum_list (onehot cats v) = real (count_list cats v)"
  by (induction cats) (auto simp: onehot_def)

lemma list_max_Max:
  assumes "xs \<noteq> []"
  shows "list_max xs = Max (set xs)"
proof (cases xs)
  case Nil
  with assms show ?thesis by simp
next
  case (Cons a list)
  have "Max (set (a # list)) = fold max list a" by (rule Max.set_eq_fold)
  then show ?thesis using Cons by (simp add: list_max_def)
qed

lemma list_max_onehot:
  assumes "v \<in> set cats"
  shows "list_max (onehot cats v) = 1"
proof -
  from assms have ne: "onehot cats v \<noteq> []" by (auto simp: onehot_def)
  have "Max (set (onehot cats v)) = 1"
  proof (rule Max_eqI)
    show "finite (set (onehot cats v))" by simp
    show "y \<le> 1" if "y \<in> set (onehot cats v)" for y
      using that by (auto simp: onehot_def)
    show "1 \<in> set (onehot cats v)"
      using assms by (auto simp: onehot_def image_iff)
  qed
  with ne show ?thesis by (simp add: list_max_Max)
qed

lemma nth_first_one:
  "v \<in> set cats \<Longrightarrow> cats ! length (takeWhile (\<lambda>x. x \<noteq> 1) (onehot cats v)) = v"
  by (induction cats) (auto simp: onehot_def)

lemma decode_onehot:
  assumes "v \<in> set cats"
  shows "decode_block cats (onehot cats v) = Some v"
proof -
  from assms have "count_list cats v \<noteq> 0" by (simp add: count_list_0_iff)
  then have "sum_list (onehot cats v) \<noteq> 0" by (simp add: sum_list_onehot)
  then show ?thesis
    using assms by (simp add: decode_block_def argmax_def list_max_onehot nth_first_one)
qed

lemma decode_onehot_unknown: "v \<notin> set cats \<Longrightarrow> decode_block cats (onehot cats v) = None"
  by (simp add: decode_block_def sum_list_onehot count_list_0_iff)

lemma length_enc_transform_row [simp]: "length (enc_transform_row enc x) = enc_width enc"
  by (cases x) (simp add: enc_transform_row_def enc_width_def)


lemma enc_inverse_row_code:
  assumes "code \<in> set (cats_StockCode enc)"
  shows "fst (enc_inverse_row enc (enc_transform_row enc (code, customer, country))) = Some code"
  using assms by (simp add: enc_inverse_row_def enc_transform_row_def Let_def decode_onehot)

section \<open>The ranking step\<close>

lemma items_of_candidates:
  assumes b: "build_df_inference df cid k = Inr (im, dfi)"
    and x: "build_X_inference V F df dfi = Inr (enc, oh, X)"
  shows "items_of enc oh = Inr (map Some (top_n_items df k))"
proof -
  from b obtain country :: string where codes: "map StockCode dfi = top_n_items df k"
    by (rule build_df_inference_Inr)
  from x obtain vt :: "string \<Rightarrow> real list" where fit: "enc_fit (onehot_cols df) = Inr enc"
    and ne: "dfi \<noteq> []"
    and oh: "oh = map (\<lambda>r. enc_transform_row enc (StockCode r, CustomerID r, Country r)) dfi"
    by (rule build_X_inference_Inr)
  have known: "StockCode r \<in> set (cats_StockCode enc)" if "r \<in> set dfi" for r
  proof -
    from that have "StockCode r \<in> set (map StockCode dfi)" by simp
    with codes top_n_items_subset [of df k] have "StockCode r \<in> StockCode ` set df" by auto
    then show ?thesis by (simp add: enc_fit_cats(1) [OF fit])
  qed
  have w: "oh \<noteq> [] \<and> list_all (\<lambda>xs. length xs = enc_width enc) oh"
    using ne by (simp add: oh list_all_iff)
  have "map fst (map (enc_inverse_row enc) oh) = map (\<lambda>r. Some (StockCode r)) dfi"
    unfolding oh by (simp add: known enc_inverse_row_code)
  also have "\<dots> = map Some (map StockCode dfi)" by simp
  finally show ?thesis
    using w by (simp add: items_of_def enc_inverse_transform_def codes)
qed

lemma recommendation_Some:
  "recommendation im (Some c) = Inr y \<longleftrightarrow> (\<exists>d. series_get im c = Inr d \<and> y = (c, d))"
  by (auto simp: recommendation_def split: sum.splits)

lemma rank_recommendations_Inr:
  assumes items: "items_of enc oh = Inr (map Some codes)"
    and rank: "rank_recommendations im enc oh preds n = Inr recs"
  shows "length preds \<le> length codes"
    and "list_all2 (\<lambda>j y. \<exists>d. series_get im (codes ! j) = Inr d \<and> y = (codes ! j, d))
           (take (nat (if 0 \<le> n then n else int (length preds) + n)) (rev (argsort preds))) recs"
proof -
  let ?m = "nat (if 0 \<le> n then n else int (length preds) + n)"
  from rank items obtain ranked where
    ta: "take_along_axis (map Some codes) (argsort preds) = Inr ranked"
    and co: "comprehension (recommendation im) (slice_to_rev (- n - 1) ranked) = Inr recs"
    by (auto simp: rank_recommendations_def split: sum.splits)
  from ta have bound: "list_all (\<lambda>i. i < length codes) (argsort preds)"
    and ranked: "ranked = map (\<lambda>i. map Some codes ! i) (argsort preds)"
    by (auto simp: take_along_axis_def split: if_splits)
  from bound have "\<forall>i \<in> {..< length preds}. i < length codes"
    by (simp add: list_all_iff)
  then show len: "length preds \<le> length codes"
    by (cases "length preds") (auto simp: lessThan_Suc)
  have "ranked = map (\<lambda>i. Some (codes ! i)) (argsort preds)"
    unfolding ranked using bound by (auto simp: list_all_iff)
  then have "slice_to_rev (- n - 1) ranked = map (\<lambda>i. Some (codes ! i)) (take ?m (rev (argsort preds)))"
    by (simp add: slice_to_rev_take rev_map take_map)
  with co have "list_all2 (\<lambda>j y. recommendation im (Some (codes ! j)) = Inr y)
                  (take ?m (rev (argsort preds))) recs"
    by (simp add: comprehension_Inr_iff list_all2_map1)
  then show "list_all2 (\<lambda>j y. \<exists>d. series_get im (codes ! j) = Inr d \<and> y = (codes ! j, d))
           (take ?m (rev (argsort preds))) recs"
    by (simp add: recommendation_Some)
qed

lemma sorted_rev_argsort: "sorted_wrt (\<lambda>i j. preds ! j \<le> preds ! i) (rev (argsort preds))"
proof -
  have "sorted_wrt (\<lambda>i j. preds ! i \<le> preds ! j) (argsort preds)"
    using sorted_argsort [of preds] by (simp add: sorted_wrt_map)
  then show ?thesis by (simp add: sorted_wrt_rev)
qed

lemma get_recommendations_Inr:
  assumes "get_recommendations P V F df cid n k = Inr recs"
  obtains im dfi enc oh X preds where
    "build_df_inference df cid k = Inr (im, dfi)"
    "build_X_inference V F df dfi = Inr (enc, oh, X)"
    "P X = Inr preds"
    "rank_recommendations im enc oh preds n = Inr recs"
  using assms by (auto simp: get_recommendations_def split: sum.splits)

text \<open>
  C1. When \<^verbatim>\<open>get_recommendations\<close> returns a list, there is a ranking of the scored
  candidate rows, holding every scored row once, in descending order of the score the
  endpoint returned for it, such that the list is the pairs of stock code and
  description along the ranking, cut as Python's \<^verbatim>\<open>ranking[:n_recommendations]\<close> cuts it:
  for a requested count \<open>n \<ge> 0\<close>, to its first \<open>n\<close> entries.
\<close>

theorem recommendations_by_descending_score:
  assumes "get_recommendations P V F df cid n k = Inr recs"
  shows "\<exists>im dfi enc oh X preds ranking.
           build_df_inference df cid k = Inr (im, dfi) \<and>
           build_X_inference V F df dfi = Inr (enc, oh, X) \<and>
           P X = Inr preds \<and> length preds \<le> length dfi \<and>
           distinct ranking \<and> set ranking = {..< length preds} \<and>
           sorted_wrt (\<lambda>i j. preds ! j \<le> preds ! i) ranking \<and>
           recs = map (\<lambda>j. (StockCode (dfi ! j), Description (dfi ! j))) (slice_to n ranking) \<and>
           (0 \<le> n \<longrightarrow>
              recs = take (nat n) (map (\<lambda>j. (StockCode (dfi ! j), Description (dfi ! j))) ranking))"
proof -
  from assms obtain im dfi enc oh X preds where
    b: "build_df_inference df cid k = Inr (im, dfi)"
    and x: "build_X_inference V F df dfi = Inr (enc, oh, X)"
    and p: "P X = Inr preds"
    and r: "rank_recommendations im enc oh preds n = Inr recs"
    by (rule get_recommendations_Inr)
  define ranking where "ranking = rev (argsort preds)"
  define idx where "idx = slice_to n ranking"
  have idx: "idx = take (nat (if 0 \<le> n then n else int (length preds) + n)) (rev (argsort preds))"
    unfolding idx_def ranking_def slice_to_take
    by (rule arg_cong2 [where f = take]) auto
  have ranking: "distinct ranking" "set ranking = {..< length preds}"
    "sorted_wrt (\<lambda>i j. preds ! j \<le> preds ! i) ranking"
    by (simp_all add: ranking_def sorted_rev_argsort)
  from b obtain country :: string where
    codes: "map StockCode dfi = top_n_items df k"
    and descs: "list_all2 (\<lambda>c d. series_get im c = Inr d) (top_n_items df k) (map Description dfi)"
    by (rule build_df_inference_Inr)
  have items: "items_of enc oh = Inr (map Some (map StockCode dfi))"
    using items_of_candidates [OF b x] by (simp add: codes)
  note rk = rank_recommendations_Inr [OF items r]
  from rk(1) have len: "length preds \<le> length dfi" by simp
  have in_range: "j < length dfi" if "j \<in> set idx" for j
  proof -
    have "set idx \<subseteq> set ranking" unfolding idx_def by (rule set_slice_to_subset)
    with that have "j \<in> set ranking" by (rule rev_subsetD)
    with ranking(2) len show ?thesis by simp
  qed
  have desc_of: "series_get im (StockCode (dfi ! j)) = Inr (Description (dfi ! j))"
    if "j < length dfi" for j
  proof -
    from descs have "list_all2 (\<lambda>c d. series_get im c = Inr d) (map StockCode dfi) (map Description dfi)"
      by (simp add: codes)
    then show ?thesis using that by (simp add: list_all2_conv_all_nth)
  qed
  have "list_all2 (\<lambda>j y. \<exists>d. series_get im (map StockCode dfi ! j) = Inr d \<and> y = (map StockCode dfi ! j, d))
          idx recs"
    using rk(2) by (simp only: idx)
  then have "list_all2 (\<lambda>j y. (StockCode (dfi ! j), Description (dfi ! j)) = y) idx recs"
  proof (rule list.rel_mono_strong)
    fix j y
    assume j: "j \<in> set idx"
      and "\<exists>d. series_get im (map StockCode dfi ! j) = Inr d \<and> y = (map StockCode dfi ! j, d)"
    then show "(StockCode (dfi ! j), Description (dfi ! j)) = y"
      using desc_of [OF in_range [OF j]] in_range [OF j] by auto
  qed
  then have "list_all2 (=) (map (\<lambda>j. (StockCode (dfi ! j), Description (dfi ! j))) idx) recs"
    by (simp add: list_all2_map1)
  then have "map (\<lambda>j. (StockCode (dfi ! j), Description (dfi ! j))) idx = recs"
    by (simp only: list_all2_eq)
  then have recs: "recs = map (\<lambda>j. (StockCode (dfi ! j), Description (dfi ! j))) (slice_to n ranking)"
    by (simp add: idx_def)
  have "0 \<le> n \<longrightarrow>
          recs = take (nat n) (map (\<lambda>j. (StockCode (dfi ! j), Description (dfi ! j))) ranking)"
    by (simp add: recs slice_to_take take_map)
  with b x p recs ranking len show ?thesis by (intro exI conjI)
qed

theorem recommendations_by_descending_score_witness:
  "get_recommendations cheap_first toy_tfidf single df0 1 2 3
     = Inr [(''85123A'', ''HEART HOLDER''), (''22776'', ''SWEETHEART'')]"
proof -
  have h: "get_recommendations cheap_first toy_tfidf single df0 1 2 3
     = Inr [(''85123A'', ''HEART HOLDER''), (''22776'', ''SWEETHEART'')]"
    by code_simp
  from recommendations_by_descending_score [OF h] h show ?thesis by simp
qed

subsection \<open>The stages of the example call\<close>

lemma build_df_inference_df0: "build_df_inference df0 1 3 = Inr (im0, dfi0)"
  by code_simp

lemma build_X_inference_df0:
  "build_X_inference toy_tfidf single df0 dfi0 = Inr (enc0, onehot_output0, X_inference0)"
  by code_simp

section \<open>What a returned list contains\<close>

lemma list_all2_set_right:
  "list_all2 R xs ys \<Longrightarrow> y \<in> set ys \<Longrightarrow> \<exists>x \<in> set xs. R x y"
  by (induction rule: list_all2_induct) auto

lemma get_recommendations_members:
  assumes g: "get_recommendations P V F df cid n k = Inr recs"
    and b: "build_df_inference df cid k = Inr (im, dfi)"
  shows "length recs \<le> length (top_n_items df k)"
    and "\<forall>y \<in> set recs. fst y \<in> set (top_n_items df k) \<and> series_get im (fst y) = Inr (snd y)"
proof -
  from g b obtain enc oh X preds where
    x: "build_X_inference V F df dfi = Inr (enc, oh, X)"
    and r: "rank_recommendations im enc oh preds n = Inr recs"
    by (auto elim!: get_recommendations_Inr)
  let ?codes = "top_n_items df k"
  let ?idx = "take (nat (if 0 \<le> n then n else int (length preds) + n)) (rev (argsort preds))"
  note rk = rank_recommendations_Inr [OF items_of_candidates [OF b x] r]
  have idx: "j < length ?codes" if "j \<in> set ?idx" for j
  proof -
    from that have "j \<in> set (rev (argsort preds))" by (rule in_set_takeD)
    then show ?thesis using rk(1) by simp
  qed
  from rk(2) have "length ?idx = length recs" by (rule list_all2_lengthD)
  then have "length recs = length ?idx" by (rule sym)
  also have "\<dots> \<le> length (rev (argsort preds))" by (simp only: length_take min.cobounded1)
  also have "\<dots> = length preds" by simp
  finally show "length recs \<le> length ?codes" using rk(1) by simp
  show "\<forall>y \<in> set recs. fst y \<in> set ?codes \<and> series_get im (fst y) = Inr (snd y)"
  proof
    fix y assume "y \<in> set recs"
    with rk(2) obtain j where j: "j \<in> set ?idx"
      and y: "\<exists>d. series_get im (?codes ! j) = Inr d \<and> y = (?codes ! j, d)"
      by (blast dest: list_all2_set_right)
    from idx [OF j] have "?codes ! j \<in> set ?codes" by simp
    with y show "fst y \<in> set ?codes \<and> series_get im (fst y) = Inr (snd y)" by auto
  qed
qed

text \<open>
  C3. When \<^verbatim>\<open>get_recommendations\<close> returns a list for a requested count larger than
  the number of candidate rows built, the list has at most as many entries as there
  are candidate rows: it is cut, never padded.
\<close>

theorem recommendations_at_most_candidates:
  assumes "get_recommendations P V F df cid n k = Inr recs"
    and "int (length (top_n_items df k)) < n"
  shows "\<exists>im dfi. build_df_inference df cid k = Inr (im, dfi) \<and>
           length dfi = length (top_n_items df k) \<and> length recs \<le> length dfi"
proof -
  from assms(1) obtain im dfi where b: "build_df_inference df cid k = Inr (im, dfi)"
    by (auto elim!: get_recommendations_Inr)
  from b obtain country :: string where "map StockCode dfi = top_n_items df k"
    by (rule build_df_inference_Inr)
  then have "length dfi = length (top_n_items df k)"
    by (metis length_map)
  with b get_recommendations_members(1) [OF assms(1) b] show ?thesis by simp
qed

theorem recommendations_at_most_candidates_witness:
  "get_recommendations cheap_first toy_tfidf single df0 1 5 3
     = Inr [(''85123A'', ''HEART HOLDER''), (''22776'', ''SWEETHEART''),
            (''22423'', ''REGENCY CAKESTAND'')] \<and>
   int (length (top_n_items df0 3)) < 5"
proof -
  have h: "get_recommendations cheap_first toy_tfidf single df0 1 5 3
     = Inr [(''85123A'', ''HEART HOLDER''), (''22776'', ''SWEETHEART''),
            (''22423'', ''REGENCY CAKESTAND'')]"
    by code_simp
  have l: "int (length (top_n_items df0 3)) < 5"
    by code_simp
  from recommendations_at_most_candidates [OF h l] h l show ?thesis by simp
qed


text \<open>
  C10. The encoder is fitted on the whole frame and every candidate stock code comes
  from that frame, so reading the encoded candidate rows back with
  \<^verbatim>\<open>inverse_transform\<close> gives the candidates' stock codes again, in order; hence every
  stock code of a returned list is one of the selected candidates.
\<close>

theorem candidate_codes_roundtrip:
  assumes b: "build_df_inference df cid k = Inr (im, dfi)"
    and x: "build_X_inference V F df dfi = Inr (enc, oh, X)"
  shows "enc_fit (onehot_cols df) = Inr enc \<and>
         enc_transform enc (onehot_cols dfi) = Inr oh \<and>
         map StockCode dfi = top_n_items df k \<and>
         items_of enc oh = Inr (map Some (map StockCode dfi)) \<and>
         (\<forall>P n recs. get_recommendations P V F df cid n k = Inr recs
            \<longrightarrow> fst ` set recs \<subseteq> set (top_n_items df k))"
proof -
  from b obtain country :: string where codes: "map StockCode dfi = top_n_items df k"
    by (rule build_df_inference_Inr)
  from x obtain vt :: "string \<Rightarrow> real list" where fit: "enc_fit (onehot_cols df) = Inr enc"
    and tr: "enc_transform enc (onehot_cols dfi) = Inr oh"
    by (rule build_X_inference_Inr)
  have items: "items_of enc oh = Inr (map Some (map StockCode dfi))"
    using items_of_candidates [OF b x] by (simp only: codes)
  have "fst ` set recs \<subseteq> set (top_n_items df k)"
    if "get_recommendations P V F df cid n k = Inr recs" for P n recs
    using get_recommendations_members(2) [OF that b] by auto
  with fit tr codes items show ?thesis by blast
qed

theorem candidate_codes_roundtrip_witness:
  "build_df_inference df0 1 3 = Inr (im0, dfi0) \<and>
   build_X_inference toy_tfidf single df0 dfi0 = Inr (enc0, onehot_output0, X_inference0) \<and>
   items_of enc0 onehot_output0 = Inr [Some ''22423'', Some ''22776'', Some ''85123A'']"
  using candidate_codes_roundtrip [OF build_df_inference_df0 build_X_inference_df0]
    build_df_inference_df0 build_X_inference_df0
  by (simp add: dfi0_def)

section \<open>Where the inference rows come from\<close>


lemma candidate_groups_subset:
  "set (zip (top_n_items df k) (top_n_prices df k)) \<subseteq> (\<lambda>r. (StockCode r, UnitPrice r)) ` set df"
proof -
  have "set (zip (top_n_items df k) (top_n_prices df k)) \<subseteq> set (map fst (popular_items df))"
    unfolding zip_top_n by (rule set_slice_to_subset)
  also have "\<dots> = (\<lambda>r. (StockCode r, UnitPrice r)) ` set df"
    by (simp add: popular_items_def set_group_keys image_image)
  finally show ?thesis .
qed




section \<open>An empty candidate pool\<close>

text \<open>
  C5, as stated, fails: for an empty input frame the candidate pool is empty and the
  call raises IndexError at the lookup of the customer's country instead of returning
  an empty list.
\<close>

theorem empty_pool_counterexample:
  "top_n_items [] 100 = [] \<and>
   get_recommendations cheap_first toy_tfidf single [] 1 5 100 = Inl IndexError"
  by code_simp

text \<open>
  C5, amended. With an empty candidate pool \<^verbatim>\<open>get_recommendations\<close> returns no list: it
  raises IndexError at the lookup of the customer's country when the customer has no
  row in the frame, and otherwise ValueError when the encoder is given the inference
  frame without rows.
\<close>

theorem empty_pool_raises:
  assumes "top_n_items df k = []"
  shows "get_recommendations P V F df cid n k
           = Inl (if cid \<in> CustomerID ` set df then ValueError else IndexError)"
proof -
  obtain im where im: "item_map df = Inr im" by (simp add: item_map_Inr)
  show ?thesis
  proof (cases "cid \<in> CustomerID ` set df")
    case False
    then have "filter (\<lambda>r. CustomerID r = cid) df = []"
      by (auto simp: filter_empty_conv)
    then have "customer_country df cid = Inl IndexError"
      by (simp add: customer_country_def most_common_Nil)
    with im False show ?thesis
      by (simp add: get_recommendations_def build_df_inference_def)
  next
    case True
    then have ne: "map Country (filter (\<lambda>r. CustomerID r = cid) df) \<noteq> []"
      by (auto simp: filter_empty_conv)
    from most_common_nonempty [OF ne] obtain country
      where co: "customer_country df cid = Inr country"
      by (auto simp: customer_country_def)
    from True have df: "df \<noteq> []" by auto
    have b: "build_df_inference df cid k = Inr (im, [])"
      using im co assms by (simp add: build_df_inference_def data_frame_def)
    obtain enc where "enc_fit (onehot_cols df) = Inr enc"
      using df by (simp add: enc_fit_def onehot_cols_def)
    then have "build_X_inference V F df [] = Inl ValueError"
      by (simp add: build_X_inference_def enc_transform_def onehot_cols_def)
    with b True show ?thesis by (simp add: get_recommendations_def)
  qed
qed

theorem empty_pool_raises_witness:
  "top_n_items df0 0 = [] \<and> get_recommendations cheap_first toy_tfidf single df0 1 5 0 = Inl ValueError"
proof -
  have h: "top_n_items df0 0 = []" by code_simp
  have c: "(1::int) \<in> CustomerID ` set df0" by (simp add: df0_def)
  from empty_pool_raises [OF h, of cheap_first toy_tfidf single 1 5] h c show ?thesis by simp
qed


section \<open>Values the encoder has not seen\<close>






section \<open>The candidate pool\<close>

lemma distinct_group_keys: "distinct (group_keys df)"
  by (simp add: group_keys_def)

lemma length_group_keys:
  "length (group_keys df) = card ((\<lambda>r. (StockCode r, UnitPrice r)) ` set df)"
proof -
  have "length (group_keys df) = card (set (group_keys df))"
    using distinct_group_keys by (simp add: distinct_card)
  then show ?thesis by (simp only: set_group_keys)
qed

lemma map_fst_popular_items:
  "set (map fst (popular_items df)) = (\<lambda>r. (StockCode r, UnitPrice r)) ` set df"
  "distinct (map fst (popular_items df))"
  "length (popular_items df) = card ((\<lambda>r. (StockCode r, UnitPrice r)) ` set df)"
  "sorted_wrt (\<lambda>a b. nunique_CustomerID df b \<le> nunique_CustomerID df a) (map fst (popular_items df))"
proof -
  let ?xs = "map (\<lambda>g. (g, nunique_CustomerID df g)) (group_keys df)"
  show "set (map fst (popular_items df)) = (\<lambda>r. (StockCode r, UnitPrice r)) ` set df"
    by (simp add: popular_items_def set_group_keys image_image)
  have "distinct ?xs"
    using distinct_group_keys by (simp add: distinct_map inj_on_def)
  moreover have "inj_on fst (set ?xs)"
    by (auto simp: inj_on_def)
  ultimately show "distinct (map fst (popular_items df))"
    by (simp add: popular_items_def distinct_map)
  show "length (popular_items df) = card ((\<lambda>r. (StockCode r, UnitPrice r)) ` set df)"
    by (simp add: popular_items_def length_group_keys)
  have "sorted_wrt (\<lambda>a b. snd b \<le> snd a) (popular_items df)"
    unfolding popular_items_def by (rule sorted_sort_values_desc)
  then have "sorted_wrt (\<lambda>a b. nunique_CustomerID df (fst b) \<le> nunique_CustomerID df (fst a))
               (popular_items df)"
    by (rule sorted_wrt_mono_rel [rotated]) (auto simp: popular_items_def)
  then show "sorted_wrt (\<lambda>a b. nunique_CustomerID df b \<le> nunique_CustomerID df a)
               (map fst (popular_items df))"
    by (simp add: sorted_wrt_map)
qed

text \<open>
  C2, as stated, fails. The example frame has five groups of stock code and price, so
  a pool size of 10 selects five candidates, not ten. And the pool ranks groups of
  stock code and price, not items: with pool size 1 it selects 22423, bought by two
  customers, although 85123A was bought by three (at three different prices).
\<close>

theorem candidate_pool_counterexample:
  "length (top_n_items df0 10) \<noteq> 10 \<and>
   top_n_items df0 1 = [''22423''] \<and>
   item_customers df0 ''22423'' < item_customers df0 ''85123A''"
  by code_simp

text \<open>
  C2, amended. For a pool size \<open>K \<ge> 0\<close> the candidate selection returns \<open>K\<close> candidates, or
  all groups when the frame has fewer than \<open>K\<close> distinct pairs of stock code and unit
  price. The candidates are distinct such pairs of the frame, in descending order of
  the number of distinct customers of the pair, and no pair left out has more distinct
  customers than a selected one.
\<close>

theorem candidate_pool_top_groups:
  assumes "0 \<le> k"
  shows "length (top_n_items df k)
           = min (nat k) (card ((\<lambda>r. (StockCode r, UnitPrice r)) ` set df)) \<and>
         length (top_n_prices df k) = length (top_n_items df k) \<and>
         distinct (zip (top_n_items df k) (top_n_prices df k)) \<and>
         set (zip (top_n_items df k) (top_n_prices df k))
           \<subseteq> (\<lambda>r. (StockCode r, UnitPrice r)) ` set df \<and>
         sorted_wrt (\<lambda>a b. nunique_CustomerID df b \<le> nunique_CustomerID df a)
           (zip (top_n_items df k) (top_n_prices df k)) \<and>
         (\<forall>g \<in> (\<lambda>r. (StockCode r, UnitPrice r)) ` set df.
            g \<notin> set (zip (top_n_items df k) (top_n_prices df k)) \<longrightarrow>
            (\<forall>c \<in> set (zip (top_n_items df k) (top_n_prices df k)).
               nunique_CustomerID df g \<le> nunique_CustomerID df c))"
proof -
  let ?G = "(\<lambda>r. (StockCode r, UnitPrice r)) ` set df"
  let ?R = "\<lambda>a b. nunique_CustomerID df b \<le> nunique_CustomerID df a"
  let ?all = "map fst (popular_items df)"
  let ?c = "zip (top_n_items df k) (top_n_prices df k)"
  note pop = map_fst_popular_items [of df]
  have c: "?c = take (nat k) ?all"
    using assms by (simp add: zip_top_n slice_to_take)
  have split: "?all = ?c @ drop (nat k) ?all" by (simp add: c)
  have "length (top_n_items df k) = min (nat k) (length (popular_items df))"
    using assms by (simp add: top_n_items_def slice_to_take min.commute)
  then have len: "length (top_n_items df k) = min (nat k) (card ?G)"
    by (simp only: pop(3))
  have dist: "distinct ?c" unfolding c using pop(2) by (rule distinct_take)
  have sub: "set ?c \<subseteq> ?G" by (rule candidate_groups_subset)
  from pop(4) have "sorted_wrt ?R (?c @ drop (nat k) ?all)"
    using split by simp
  then have sorted: "sorted_wrt ?R ?c"
    and cross: "\<forall>a \<in> set ?c. \<forall>g \<in> set (drop (nat k) ?all). ?R a g"
    by (simp_all add: sorted_wrt_append)
  have rest: "\<forall>g \<in> ?G. g \<notin> set ?c \<longrightarrow> (\<forall>a \<in> set ?c. ?R a g)"
  proof (intro ballI impI)
    fix g a assume g: "g \<in> ?G" "g \<notin> set ?c" and a: "a \<in> set ?c"
    from g(1) have "g \<in> set ?all" by (simp only: pop(1))
    then have "g \<in> set ?c \<union> set (drop (nat k) ?all)" by (subst (asm) split) simp
    with g(2) have "g \<in> set (drop (nat k) ?all)" by simp
    with cross a show "?R a g" by blast
  qed
  from len length_top_n_prices dist sub sorted rest show ?thesis by blast
qed

theorem candidate_pool_top_groups_witness:
  "(0::int) \<le> 10 \<and> length (top_n_items df0 10) = 5 \<and>
   zip (top_n_items df0 2) (top_n_prices df0 2) = [(''22423'', 12.75), (''22776'', 9.95)]"
proof -
  have h: "(0::int) \<le> 10" by simp
  have z: "zip (top_n_items df0 2) (top_n_prices df0 2) = [(''22423'', 12.75), (''22776'', 9.95)]"
    by code_simp
  have l: "length (top_n_items df0 10) = 5" by code_simp
  from candidate_pool_top_groups [OF h, of df0] h z l show ?thesis by simp
qed

end
